theory Spec2Isabelle
  imports Complex_Main "HOL-Library.Log_Nat" "HOL-Library.Signed_Division" "HOL-Library.Sublist"
begin

section \<open>gosqlmetrics: connection-pool statistics as Prometheus samples\<close>

text \<open>
  The package has two source files. \<^verbatim>\<open>metrics.go\<close> is the multi-pool collector: a registry
  \<^verbatim>\<open>map[*sql.DB][]string\<close> behind a \<^verbatim>\<open>sync.RWMutex\<close>, filled by \<^verbatim>\<open>MustRegisterDB\<close>.
  The second file is the single-pool collector, bound to one \<^verbatim>\<open>*sql.DB\<close> and one list of
  label values at construction. Both build the same eight descriptors and send the same
  eight samples per pool. Names of the single-pool file carry the suffix \<open>_single\<close>.

  What the code calls in other packages (\<^verbatim>\<open>prometheus.NewDesc\<close>,
  \<^verbatim>\<open>prometheus.MustNewConstMetric\<close>, \<^verbatim>\<open>prometheus.DescribeByCollect\<close>,
  \<^verbatim>\<open>sql.DB.Stats\<close>, \<^verbatim>\<open>time.Duration.Seconds\<close>, the conversion \<^verbatim>\<open>float64(x)\<close>,
  \<^verbatim>\<open>sync.RWMutex\<close>) is modelled in the first subsections, as far as the collector depends
  on it.
\<close>

subsection \<open>Go values: \<^verbatim>\<open>float64\<close> and \<^verbatim>\<open>time.Duration\<close>\<close>

text \<open>
  A finite \<^verbatim>\<open>float64\<close> is a rational number with a 53-bit significand. Every number the
  collector converts lies in the normal range (an integer of at most 64 bits, or a
  fraction of a second no smaller than \<open>10\<^sup>-\<^sup>9\<close>), so overflow and subnormal
  numbers are left out: \<open>f64_round\<close> rounds to the nearest number with a 53-bit
  significand, ties to the even significand, as IEEE 754 does there.
\<close>

type_synonym float64 = rat

definition pow2 :: "int \<Rightarrow> rat" where
  "pow2 e = (if 0 \<le> e then 2 ^ nat e else 1 / 2 ^ nat (- e))"

text \<open>\<open>ilog2 a\<close> is the exponent \<open>e\<close> with \<open>2\<^sup>e \<le> a < 2\<^sup>e\<^sup>+\<^sup>1\<close>, for \<open>a > 0\<close>.\<close>

definition ilog2 :: "rat \<Rightarrow> int" where
  "ilog2 a = (case quotient_of a of (p, d) \<Rightarrow>
     (let e0 = bitlen p - bitlen d in if pow2 e0 \<le> a then e0 else e0 - 1))"

definition round_half_even :: "rat \<Rightarrow> int" where
  "round_half_even n = (let f = \<lfloor>n\<rfloor>; r = n - of_int f
     in if 1 / 2 < r \<or> (r = 1 / 2 \<and> odd f) then f + 1 else f)"

definition f64_round :: "rat \<Rightarrow> float64" where
  "f64_round q = (if q = 0 then 0
     else (let u = pow2 (ilog2 \<bar>q\<bar> - 52)
           in sgn q * of_int (round_half_even (\<bar>q\<bar> / u)) * u))"

text \<open>The conversion \<^verbatim>\<open>float64(x)\<close> of an integer, and the two operations \<^verbatim>\<open>Seconds\<close> uses.\<close>

definition float64_of_int :: "int \<Rightarrow> float64" where
  "float64_of_int x = f64_round (of_int x)"

definition f64_add :: "float64 \<Rightarrow> float64 \<Rightarrow> float64" where
  "f64_add a b = f64_round (a + b)"

definition f64_div :: "float64 \<Rightarrow> float64 \<Rightarrow> float64" where
  "f64_div a b = f64_round (a / b)"

text \<open>
  A \<^verbatim>\<open>time.Duration\<close> is a count of nanoseconds. Go's library computes
  \<^verbatim>\<open>sec := d / Second; nsec := d % Second; return float64(sec) + float64(nsec)/1e9\<close>,
  with the truncating division of Go's integers.
\<close>

definition Second :: int where
  "Second = 1000000000"

definition Seconds :: "int \<Rightarrow> float64" where
  "Seconds d = (let sec = d sdiv Second; nsec = d smod Second
     in f64_add (float64_of_int sec) (f64_div (float64_of_int nsec) 1000000000))"

subsection \<open>The pool: \<^verbatim>\<open>*sql.DB\<close> and \<^verbatim>\<open>DBStats\<close>\<close>

text \<open>A \<^verbatim>\<open>*sql.DB\<close> is \<^verbatim>\<open>nil\<close> or the address of a pool object.\<close>

datatype DBptr = NilDB | DB nat

record DBStats =
  MaxOpenConnections :: int
  OpenConnections :: int
  InUse :: int
  Idle :: int
  WaitCount :: int
  WaitDuration :: int
  MaxIdleClosed :: int
  MaxLifetimeClosed :: int

datatype desc_error =
    InvalidMetricName string
  | InvalidLabelName string string
  | DuplicateLabelNames

datatype panic =
    DuplicateRegister
  | NilDereference
  | DescError desc_error
  | InconsistentCardinality nat nat
  | InvalidLabelValue string

text \<open>
  The pools belong to the program around the collector, which changes their counters
  between and during the collector's calls. The world gives, for the pool at address
  \<open>a\<close>, the snapshot \<open>snaps w a k\<close> that the \<open>k\<close>-th call of \<^verbatim>\<open>Stats\<close> on it returns, and
  counts the calls made so far. \<^verbatim>\<open>Stats\<close> on \<^verbatim>\<open>nil\<close> dereferences the pointer and panics.
\<close>

record World =
  snaps :: "nat \<Rightarrow> nat \<Rightarrow> DBStats"
  reads :: "nat \<Rightarrow> nat"

definition Stats :: "DBptr \<Rightarrow> World \<Rightarrow> panic + (DBStats \<times> World)" where
  "Stats db w = (case db of
       NilDB \<Rightarrow> Inl NilDereference
     | DB a \<Rightarrow> Inr (snaps w a (reads w a), w\<lparr>reads := (reads w)(a := Suc (reads w a))\<rparr>))"

subsection \<open>The exposition library: descriptors and constant metrics\<close>

record Desc =
  fqName :: string
  help_text :: string
  variableLabels :: "string list"
  err :: "desc_error option"

datatype ValueType = CounterValue | GaugeValue | UntypedValue

text \<open>
  A sample is what \<^verbatim>\<open>MustNewConstMetric\<close> was given: the descriptor, the kind, the value and
  the label values, in the order of the call.
\<close>

record Metric =
  desc :: Desc
  valType :: ValueType
  val :: float64
  labelValues :: "string list"

definition isLetter :: "char \<Rightarrow> bool" where
  "isLetter ch = (let n = (of_char ch :: nat)
     in (97 \<le> n \<and> n \<le> 122) \<or> (65 \<le> n \<and> n \<le> 90) \<or> n = 95)"

definition isDigit :: "char \<Rightarrow> bool" where
  "isDigit ch = (let n = (of_char ch :: nat) in 48 \<le> n \<and> n \<le> 57)"

text \<open>Metric names match \<^verbatim>\<open>[a-zA-Z_:][a-zA-Z0-9_:]*\<close>, label names \<^verbatim>\<open>[a-zA-Z_][a-zA-Z0-9_]*\<close>.\<close>

definition IsValidMetricName :: "string \<Rightarrow> bool" where
  "IsValidMetricName n = (case n of
       [] \<Rightarrow> False
     | ch # cs \<Rightarrow> (isLetter ch \<or> ch = CHR '':'')
                 \<and> list_all (\<lambda>x. isLetter x \<or> isDigit x \<or> x = CHR '':'') cs)"

definition LabelName_IsValid :: "string \<Rightarrow> bool" where
  "LabelName_IsValid n = (case n of
       [] \<Rightarrow> False
     | ch # cs \<Rightarrow> isLetter ch \<and> list_all (\<lambda>x. isLetter x \<or> isDigit x) cs)"

definition checkLabelName :: "string \<Rightarrow> bool" where
  "checkLabelName l = (LabelName_IsValid l \<and> take 2 l \<noteq> ''__'')"

text \<open>
  \<^verbatim>\<open>NewDesc\<close> never fails: a name it rejects is recorded in the descriptor's \<open>err\<close>, which
  every later use of the descriptor reports. The collector passes no constant labels.
\<close>

definition NewDesc :: "string \<Rightarrow> string \<Rightarrow> string list \<Rightarrow> Desc" where
  "NewDesc fq h ls = \<lparr>fqName = fq, help_text = h, variableLabels = ls,
     err = (if IsValidMetricName fq then
              (case find (\<lambda>l. \<not> checkLabelName l) ls of
                 Some l \<Rightarrow> Some (InvalidLabelName l fq)
               | None \<Rightarrow> if distinct ls then None else Some DuplicateLabelNames)
            else Some (InvalidMetricName fq))\<rparr>"

text \<open>\<^verbatim>\<open>utf8.ValidString\<close> on the bytes of a string.\<close>

definition inRange :: "nat \<Rightarrow> nat \<Rightarrow> nat \<Rightarrow> bool" where
  "inRange lo hi b = (lo \<le> b \<and> b \<le> hi)"

fun ValidBytes :: "nat list \<Rightarrow> bool" where
  "ValidBytes [] = True"
| "ValidBytes (b # bs) =
     (if b < 128 then ValidBytes bs
      else if inRange 194 223 b then
        (case bs of
           b1 # r \<Rightarrow> inRange 128 191 b1 \<and> ValidBytes r
         | _ \<Rightarrow> False)
      else if inRange 224 239 b then
        (case bs of
           b1 # b2 # r \<Rightarrow>
             inRange (if b = 224 then 160 else 128) (if b = 237 then 159 else 191) b1
             \<and> inRange 128 191 b2 \<and> ValidBytes r
         | _ \<Rightarrow> False)
      else if inRange 240 244 b then
        (case bs of
           b1 # b2 # b3 # r \<Rightarrow>
             inRange (if b = 240 then 144 else 128) (if b = 244 then 143 else 191) b1
             \<and> inRange 128 191 b2 \<and> inRange 128 191 b3 \<and> ValidBytes r
         | _ \<Rightarrow> False)
      else False)"

definition ValidString :: "string \<Rightarrow> bool" where
  "ValidString s = ValidBytes (map of_char s)"

definition validateLabelValues :: "string list \<Rightarrow> nat \<Rightarrow> panic option" where
  "validateLabelValues vals expected =
     (if length vals \<noteq> expected then Some (InconsistentCardinality expected (length vals))
      else (case find (\<lambda>v. \<not> ValidString v) vals of
              Some v \<Rightarrow> Some (InvalidLabelValue v)
            | None \<Rightarrow> None))"

text \<open>
  \<^verbatim>\<open>NewConstMetric\<close> returns the descriptor's error, then the error of the label values;
  \<^verbatim>\<open>MustNewConstMetric\<close> panics with either.
\<close>

definition MustNewConstMetric ::
  "Desc \<Rightarrow> ValueType \<Rightarrow> float64 \<Rightarrow> string list \<Rightarrow> panic + Metric" where
  "MustNewConstMetric d vt v lvs =
     (case err d of
        Some e \<Rightarrow> Inl (DescError e)
      | None \<Rightarrow>
          (case validateLabelValues lvs (length (variableLabels d)) of
             Some p \<Rightarrow> Inl p
           | None \<Rightarrow> Inr \<lparr>desc = d, valType = vt, val = v, labelValues = lvs\<rparr>))"

subsection \<open>\<^verbatim>\<open>sync.RWMutex\<close>\<close>

text \<open>
  The mutex is a value: whether a writer holds it and how many readers do. An operation
  that would block has no result.
\<close>

record RWMutex =
  writer :: bool
  readers :: nat

definition newRWMutex :: RWMutex where
  "newRWMutex = \<lparr>writer = False, readers = 0\<rparr>"

definition Lock :: "RWMutex \<Rightarrow> RWMutex option" where
  "Lock mu = (if writer mu \<or> 0 < readers mu then None else Some (mu\<lparr>writer := True\<rparr>))"

definition Unlock :: "RWMutex \<Rightarrow> RWMutex" where
  "Unlock mu = mu\<lparr>writer := False\<rparr>"

definition RLock :: "RWMutex \<Rightarrow> RWMutex option" where
  "RLock mu = (if writer mu then None else Some (mu\<lparr>readers := Suc (readers mu)\<rparr>))"

definition RUnlock :: "RWMutex \<Rightarrow> RWMutex" where
  "RUnlock mu = mu\<lparr>readers := readers mu - 1\<rparr>"

subsection \<open>Options, descriptors and construction\<close>

record Options =
  Prefix :: string
  Labels :: "string list"

record Options_single = Options +
  LabelValues :: "string list"

record metrics =
  maxConnsDesc :: Desc
  openConns :: Desc
  inUse :: Desc
  idle :: Desc
  waitCount :: Desc
  waitDuration :: Desc
  maxIdleClosed :: Desc
  maxLifetimeClosed :: Desc

text \<open>
  The fields \<^verbatim>\<open>o\<close>, \<^verbatim>\<open>m\<close>, \<^verbatim>\<open>l\<close>, \<^verbatim>\<open>dbs\<close> of \<^verbatim>\<open>Collector\<close> are prefixed with the receiver's
  name \<open>c\<close> (\<open>o\<close> is function composition in HOL); those of the single-pool collector
  with \<open>s\<close>.
\<close>

record Collector =
  c_o :: Options
  c_m :: metrics
  c_l :: RWMutex
  c_dbs :: "DBptr \<rightharpoonup> string list"

record Collector_single =
  s_o :: Options_single
  s_db :: DBptr
  s_m :: metrics

definition NewCollector :: "Options \<Rightarrow> Collector" where
  "NewCollector opt = \<lparr>
     c_o = opt,
     c_m = \<lparr>
       maxConnsDesc = NewDesc (Prefix opt @ ''connections_max'')
         ''Max number of open connections to the DB'' (Labels opt),
       openConns = NewDesc (Prefix opt @ ''connections_open'')
         ''Current number of established connections bith inuse and idle'' (Labels opt),
       inUse = NewDesc (Prefix opt @ ''connections_in_use'')
         ''The number of connections currently in use'' (Labels opt),
       idle = NewDesc (Prefix opt @ ''connections_idle'')
         ''The number of idle connections'' (Labels opt),
       waitCount = NewDesc (Prefix opt @ ''connections_wait_count_total'')
         ''The total number of connections waited for'' (Labels opt),
       waitDuration = NewDesc (Prefix opt @ ''connections_wait_duration_seconds_total'')
         ''The total time blocked waiting for a new connection in seconds'' (Labels opt),
       maxIdleClosed = NewDesc (Prefix opt @ ''connections_max_idle_closed_total'')
         ''The total number of connections closed due to SetMaxIdleConns'' (Labels opt),
       maxLifetimeClosed = NewDesc (Prefix opt @ ''connections_max_lifetime_closed_total'')
         ''The total number of connections closed due to SetConnMaxLifetime'' (Labels opt)\<rparr>,
     c_l = newRWMutex,
     c_dbs = Map.empty\<rparr>"

definition NewCollector_single :: "Options_single \<Rightarrow> DBptr \<Rightarrow> Collector_single" where
  "NewCollector_single opt db = \<lparr>
     s_o = opt,
     s_db = db,
     s_m = \<lparr>
       maxConnsDesc = NewDesc (Prefix opt @ ''connections_max'')
         ''Max number of open connections to the DB'' (Labels opt),
       openConns = NewDesc (Prefix opt @ ''connections_open'')
         ''Current number of established connections bith inuse and idle'' (Labels opt),
       inUse = NewDesc (Prefix opt @ ''connections_in_use'')
         ''The number of connections currently in use'' (Labels opt),
       idle = NewDesc (Prefix opt @ ''connections_idle'')
         ''The number of idle connections'' (Labels opt),
       waitCount = NewDesc (Prefix opt @ ''connections_wait_count_total'')
         ''The total number of connections waited for'' (Labels opt),
       waitDuration = NewDesc (Prefix opt @ ''connections_wait_duration_seconds_total'')
         ''The total time blocked waiting for a new connection in seconds'' (Labels opt),
       maxIdleClosed = NewDesc (Prefix opt @ ''connections_max_idle_closed_total'')
         ''The total number of connections closed due to SetMaxIdleConns'' (Labels opt),
       maxLifetimeClosed = NewDesc (Prefix opt @ ''connections_max_lifetime_closed_total'')
         ''The total number of connections closed due to SetConnMaxLifetime'' (Labels opt)\<rparr>\<rparr>"

text \<open>The eight descriptor fields of \<^verbatim>\<open>metrics\<close>, in the order of their declaration.\<close>

definition all_descs :: "metrics \<Rightarrow> Desc list" where
  "all_descs ms = [maxConnsDesc ms, openConns ms, inUse ms, idle ms,
     waitCount ms, waitDuration ms, maxIdleClosed ms, maxLifetimeClosed ms]"

subsection \<open>Registration\<close>

text \<open>
  A call returns, panics, or blocks on a mutex for ever. The channel a call sends to is
  the list of what was sent, oldest first; the receiver is taken to drain it.
\<close>

datatype outcome = Returned | Panicked panic | Blocked

text \<open>
  \<^verbatim>\<open>MustRegisterDB\<close> has a pointer receiver: it changes the collector in place, and the
  model returns the collector as the call leaves it. The deferred \<^verbatim>\<open>Unlock\<close> runs on
  both exits.
\<close>

definition MustRegisterDB :: "Collector \<Rightarrow> DBptr \<Rightarrow> string list \<Rightarrow> Collector \<times> outcome" where
  "MustRegisterDB c db lvs =
     (case Lock (c_l c) of
        None \<Rightarrow> (c, Blocked)
      | Some mu \<Rightarrow>
          (let c1 = c\<lparr>c_l := mu\<rparr> in
           (case c_dbs c1 db of
              Some _ \<Rightarrow> (c1\<lparr>c_l := Unlock (c_l c1)\<rparr>, Panicked DuplicateRegister)
            | None \<Rightarrow>
                (let c2 = c1\<lparr>c_dbs := (c_dbs c1)(db \<mapsto> lvs)\<rparr>
                 in (c2\<lparr>c_l := Unlock (c_l c2)\<rparr>, Returned)))))"

subsection \<open>Collect and Describe\<close>

text \<open>
  One statement \<^verbatim>\<open>ch <- prometheus.MustNewConstMetric(...)\<close>: the metric is built, which
  may panic, and then sent; \<open>k\<close> is the rest of the function body.
\<close>

definition send ::
  "panic + 'a \<Rightarrow> ('a list \<Rightarrow> 'a list \<times> outcome) \<Rightarrow> 'a list \<Rightarrow> 'a list \<times> outcome" where
  "send r k ch = (case r of Inl p \<Rightarrow> (ch, Panicked p) | Inr x \<Rightarrow> k (ch @ [x]))"

text \<open>
  The eight statements that follow the \<^verbatim>\<open>Stats\<close> call. They are the same in both files,
  but for the label values: the loop variable \<^verbatim>\<open>labelValues\<close> in the multi-pool
  collector, \<^verbatim>\<open>c.o.LabelValues\<close> in the single-pool one.
\<close>

definition send_samples ::
  "metrics \<Rightarrow> DBStats \<Rightarrow> string list \<Rightarrow> Metric list \<Rightarrow> Metric list \<times> outcome" where
  "send_samples ms stats lvs =
     send (MustNewConstMetric (maxConnsDesc ms) GaugeValue
             (float64_of_int (MaxOpenConnections stats)) lvs) (
     send (MustNewConstMetric (openConns ms) GaugeValue
             (float64_of_int (OpenConnections stats)) lvs) (
     send (MustNewConstMetric (inUse ms) GaugeValue
             (float64_of_int (InUse stats)) lvs) (
     send (MustNewConstMetric (idle ms) GaugeValue
             (float64_of_int (Idle stats)) lvs) (
     send (MustNewConstMetric (waitCount ms) CounterValue
             (float64_of_int (WaitCount stats)) lvs) (
     send (MustNewConstMetric (waitDuration ms) CounterValue
             (Seconds (WaitDuration stats)) lvs) (
     send (MustNewConstMetric (maxIdleClosed ms) CounterValue
             (float64_of_int (MaxIdleClosed stats)) lvs) (
     send (MustNewConstMetric (maxLifetimeClosed ms) CounterValue
             (float64_of_int (MaxLifetimeClosed stats)) lvs) (
     \<lambda>ch. (ch, Returned)))))))))"

text \<open>
  \<^verbatim>\<open>for db, labelValues := range c.dbs\<close>: Go leaves the order of a map's entries open, so
  the loop runs over a list \<open>es\<close> of the entries, and \<open>range_order\<close> says that \<open>es\<close> lists
  every entry of the map once.
\<close>

definition range_order :: "('k \<rightharpoonup> 'v) \<Rightarrow> ('k \<times> 'v) list \<Rightarrow> bool" where
  "range_order m es = (distinct (map fst es) \<and> map_of es = m)"

fun range_dbs ::
  "metrics \<Rightarrow> (DBptr \<times> string list) list \<Rightarrow> World \<Rightarrow> Metric list
     \<Rightarrow> Metric list \<times> outcome \<times> World" where
  "range_dbs ms [] w ch = (ch, Returned, w)"
| "range_dbs ms ((db, lvs) # es) w ch =
     (case Stats db w of
        Inl p \<Rightarrow> (ch, Panicked p, w)
      | Inr (stats, w') \<Rightarrow>
          (case send_samples ms stats lvs ch of
             (ch', Returned) \<Rightarrow> range_dbs ms es w' ch'
           | (ch', r) \<Rightarrow> (ch', r, w')))"

text \<open>
  \<^verbatim>\<open>Collect\<close> has a value receiver: \<open>c\<close> is a copy of the collector, mutex included. The
  read lock is taken on the copy's mutex and the deferred \<^verbatim>\<open>RUnlock\<close> releases the copy's
  mutex; the copy is dropped at the end, so the call returns what it sent, how it ended
  and the world.
\<close>

definition Collect_multi ::
  "Collector \<Rightarrow> (DBptr \<times> string list) list \<Rightarrow> World \<Rightarrow> Metric list \<times> outcome \<times> World" where
  "Collect_multi c es w =
     (case RLock (c_l c) of
        None \<Rightarrow> ([], Blocked, w)
      | Some mu \<Rightarrow> range_dbs (c_m c) es w [])"

definition Collect_single :: "Collector_single \<Rightarrow> World \<Rightarrow> Metric list \<times> outcome \<times> World" where
  "Collect_single c w =
     (case Stats (s_db c) w of
        Inl p \<Rightarrow> ([], Panicked p, w)
      | Inr (stats, w') \<Rightarrow>
          (case send_samples (s_m c) stats (LabelValues (s_o c)) [] of
             (ch, r) \<Rightarrow> (ch, r, w')))"

text \<open>
  \<^verbatim>\<open>prometheus.DescribeByCollect\<close> runs the collector's \<^verbatim>\<open>Collect\<close> and sends the descriptor
  of every metric it receives.
\<close>

definition DescribeByCollect ::
  "(World \<Rightarrow> Metric list \<times> outcome \<times> World) \<Rightarrow> World \<Rightarrow> Desc list \<times> outcome \<times> World" where
  "DescribeByCollect collect w = (case collect w of (ms, r, w') \<Rightarrow> (map desc ms, r, w'))"

definition Describe ::
  "Collector \<Rightarrow> (DBptr \<times> string list) list \<Rightarrow> World \<Rightarrow> Desc list \<times> outcome \<times> World" where
  "Describe c es w = DescribeByCollect (Collect_multi c es) w"

definition Describe_single :: "Collector_single \<Rightarrow> World \<Rightarrow> Desc list \<times> outcome \<times> World" where
  "Describe_single c w = DescribeByCollect (Collect_single c) w"

subsection \<open>What the specification expects\<close>

text \<open>
  The suffix table of section 4.1 and the eight samples of section 4.3, written from the
  specification, to be compared with what the code builds and sends.
\<close>

definition spec_suffixes :: "string list" where
  "spec_suffixes = [''connections_max'', ''connections_open'', ''connections_in_use'',
     ''connections_idle'', ''connections_wait_count_total'',
     ''connections_wait_duration_seconds_total'', ''connections_max_idle_closed_total'',
     ''connections_max_lifetime_closed_total'']"

definition spec_samples :: "metrics \<Rightarrow> DBStats \<Rightarrow> string list \<Rightarrow> Metric list" where
  "spec_samples ms S lvs = [
     \<lparr>desc = maxConnsDesc ms, valType = GaugeValue,
      val = float64_of_int (MaxOpenConnections S), labelValues = lvs\<rparr>,
     \<lparr>desc = openConns ms, valType = GaugeValue,
      val = float64_of_int (OpenConnections S), labelValues = lvs\<rparr>,
     \<lparr>desc = inUse ms, valType = GaugeValue,
      val = float64_of_int (InUse S), labelValues = lvs\<rparr>,
     \<lparr>desc = idle ms, valType = GaugeValue,
      val = float64_of_int (Idle S), labelValues = lvs\<rparr>,
     \<lparr>desc = waitCount ms, valType = CounterValue,
      val = float64_of_int (WaitCount S), labelValues = lvs\<rparr>,
     \<lparr>desc = waitDuration ms, valType = CounterValue,
      val = Seconds (WaitDuration S), labelValues = lvs\<rparr>,
     \<lparr>desc = maxIdleClosed ms, valType = CounterValue,
      val = float64_of_int (MaxIdleClosed S), labelValues = lvs\<rparr>,
     \<lparr>desc = maxLifetimeClosed ms, valType = CounterValue,
      val = float64_of_int (MaxLifetimeClosed S), labelValues = lvs\<rparr>]"

text \<open>
  The constructor of a constant metric accepts a descriptor with a list of label values
  when it reports neither error; a registration is well formed when the handle is not
  \<^verbatim>\<open>nil\<close> and all eight descriptors accept its label values.
\<close>

definition accepts :: "Desc \<Rightarrow> string list \<Rightarrow> bool" where
  "accepts d lvs = (err d = None \<and> validateLabelValues lvs (length (variableLabels d)) = None)"

definition sample_ok :: "metrics \<Rightarrow> string list \<Rightarrow> bool" where
  "sample_ok ms lvs = list_all (\<lambda>d. accepts d lvs) (all_descs ms)"

definition registry_ok :: "metrics \<Rightarrow> (DBptr \<times> string list) list \<Rightarrow> bool" where
  "registry_ok ms es = list_all (\<lambda>e. fst e \<noteq> NilDB \<and> sample_ok ms (snd e)) es"

text \<open>The samples one pool is expected to contribute to a pass that starts in world \<open>w\<close>.\<close>

definition pool_samples :: "metrics \<Rightarrow> World \<Rightarrow> DBptr \<times> string list \<Rightarrow> Metric list" where
  "pool_samples ms w e = (case fst e of
       NilDB \<Rightarrow> []
     | DB a \<Rightarrow> spec_samples ms (snaps w a (reads w a)) (snd e))"

text \<open>The world after a pass that has read every pool of \<open>es\<close> once.\<close>

definition after_pass :: "World \<Rightarrow> (DBptr \<times> string list) list \<Rightarrow> World" where
  "after_pass w es =
     w\<lparr>reads := (\<lambda>a. if DB a \<in> fst ` set es then Suc (reads w a) else reads w a)\<rparr>"

subsection \<open>A running example\<close>

text \<open>
  The example of the specification: prefix \<^verbatim>\<open>db_\<close>, one label \<^verbatim>\<open>service\<close>, one pool
  registered as \<^verbatim>\<open>orders\<close>. In the example world the wait count of every pool grows by
  one between two reads.
\<close>

definition example_opts :: Options where
  "example_opts = \<lparr>Prefix = ''db_'', Labels = [''service'']\<rparr>"

definition example_stats :: DBStats where
  "example_stats = \<lparr>MaxOpenConnections = 10, OpenConnections = 3, InUse = 1, Idle = 2,
     WaitCount = 5, WaitDuration = 1500000000, MaxIdleClosed = 0, MaxLifetimeClosed = 2\<rparr>"

definition example_world :: World where
  "example_world = \<lparr>snaps = (\<lambda>a k. example_stats\<lparr>WaitCount := 5 + int k\<rparr>), reads = (\<lambda>a. 0)\<rparr>"

definition example_collector :: Collector where
  "example_collector = fst (MustRegisterDB (NewCollector example_opts) (DB 0) [''orders''])"

text \<open>
  A registration with no label value for the one label name, and a collector that holds
  it beside a well-formed one.
\<close>

definition bad_collector :: Collector where
  "bad_collector = fst (MustRegisterDB (NewCollector example_opts) (DB 0) [])"

definition two_pool_collector :: Collector where
  "two_pool_collector = fst (MustRegisterDB bad_collector (DB 1) [''orders''])"

text \<open>The single-pool collector of the example.\<close>

definition example_single :: Collector_single where
  "example_single = NewCollector_single
     \<lparr>Prefix = ''db_'', Labels = [''service''], LabelValues = [''orders'']\<rparr> (DB 0)"

text \<open>The same collector bound to two label values for the one label name.\<close>

definition bad_single :: Collector_single where
  "bad_single = NewCollector_single
     \<lparr>Prefix = ''db_'', Labels = [''service''], LabelValues = [''orders'', ''eu'']\<rparr> (DB 0)"

subsection \<open>Two goroutines: a pass and a registration\<close>

text \<open>
  Where a call of \<^verbatim>\<open>Collect\<close> stands: not yet entered; entered, the receiver copied,
  about to read-lock the copy \<open>mu\<close> of the mutex; inside the loop over the map, holding
  the read lock of its copy; returned (the deferred \<^verbatim>\<open>RUnlock\<close> releases the copy).
\<close>

datatype collect_pc = C_call | C_RLock RWMutex | C_range RWMutex | C_return

text \<open>
  Where a call of \<^verbatim>\<open>MustRegisterDB\<close> stands: before \<^verbatim>\<open>c.l.Lock()\<close>; holding the
  collector's mutex, at the duplicate check; holding it, at the assignment to the map;
  returned or panicked, the mutex released.
\<close>

datatype register_pc = R_call | R_check | R_write | R_return | R_panic

text \<open>
  The collector both goroutines were given a pointer to: its mutex and its map are
  shared, the mutex copy of \<^verbatim>\<open>Collect\<close> is its own.
\<close>

record conc_state =
  shared_l :: RWMutex
  shared_dbs :: "DBptr \<rightharpoonup> string list"
  cpc :: collect_pc
  rpc :: register_pc

definition step_collect :: "conc_state \<Rightarrow> conc_state" where
  "step_collect s = (case cpc s of
       C_call \<Rightarrow> s\<lparr>cpc := C_RLock (shared_l s)\<rparr>
     | C_RLock mu \<Rightarrow> (case RLock mu of None \<Rightarrow> s | Some mu' \<Rightarrow> s\<lparr>cpc := C_range mu'\<rparr>)
     | C_range mu \<Rightarrow> s\<lparr>cpc := C_return\<rparr>
     | C_return \<Rightarrow> s)"

definition step_register :: "DBptr \<Rightarrow> string list \<Rightarrow> conc_state \<Rightarrow> conc_state" where
  "step_register db lvs s = (case rpc s of
       R_call \<Rightarrow>
         (case Lock (shared_l s) of
            None \<Rightarrow> s
          | Some mu \<Rightarrow> s\<lparr>shared_l := mu, rpc := R_check\<rparr>)
     | R_check \<Rightarrow>
         (case shared_dbs s db of
            Some _ \<Rightarrow> s\<lparr>shared_l := Unlock (shared_l s), rpc := R_panic\<rparr>
          | None \<Rightarrow> s\<lparr>rpc := R_write\<rparr>)
     | R_write \<Rightarrow>
         s\<lparr>shared_dbs := (shared_dbs s)(db \<mapsto> lvs), shared_l := Unlock (shared_l s),
           rpc := R_return\<rparr>
     | R_return \<Rightarrow> s
     | R_panic \<Rightarrow> s)"

text \<open>A schedule names the goroutine that takes the next step; a blocked step changes nothing.\<close>

datatype goroutine = Collecting | Registering

fun run :: "DBptr \<Rightarrow> string list \<Rightarrow> goroutine list \<Rightarrow> conc_state \<Rightarrow> conc_state" where
  "run db lvs [] s = s"
| "run db lvs (Collecting # sched) s = run db lvs sched (step_collect s)"
| "run db lvs (Registering # sched) s = run db lvs sched (step_register db lvs s)"

definition conc_init :: "Collector \<Rightarrow> conc_state" where
  "conc_init c = \<lparr>shared_l = c_l c, shared_dbs = c_dbs c, cpc = C_call, rpc = R_call\<rparr>"

section \<open>Properties\<close>

subsection \<open>Construction\<close>

lemma distinct_suffixes: "distinct spec_suffixes"
  by (simp add: spec_suffixes_def)

text \<open>
  C2. For every options value, \<^verbatim>\<open>NewCollector\<close> builds eight descriptors whose names are
  the prefix followed by the eight suffixes of the table, in the table's order and
  pairwise different, each with the configured label names. The new collector holds the
  options, an empty registry and an unlocked mutex. The single-pool constructor builds
  the same descriptors and holds the options and the handle it was given. Both are total
  functions of their arguments: they have no error result and touch no other state (a
  name the library rejects is recorded in the descriptor, which is built all the same).
\<close>

theorem NewCollector_descriptors:
  "length (all_descs (c_m (NewCollector opt))) = 8
   \<and> map fqName (all_descs (c_m (NewCollector opt))) = map (\<lambda>s. Prefix opt @ s) spec_suffixes
   \<and> distinct (map fqName (all_descs (c_m (NewCollector opt))))
   \<and> map variableLabels (all_descs (c_m (NewCollector opt))) = replicate 8 (Labels opt)
   \<and> c_o (NewCollector opt) = opt
   \<and> c_dbs (NewCollector opt) = Map.empty
   \<and> c_l (NewCollector opt) = newRWMutex
   \<and> s_m (NewCollector_single sopt db) = c_m (NewCollector (Options.truncate sopt))
   \<and> map fqName (all_descs (s_m (NewCollector_single sopt db)))
       = map (\<lambda>s. Prefix sopt @ s) spec_suffixes
   \<and> map variableLabels (all_descs (s_m (NewCollector_single sopt db)))
       = replicate 8 (Labels sopt)
   \<and> s_o (NewCollector_single sopt db) = sopt
   \<and> s_db (NewCollector_single sopt db) = db"
proof -
  have names: "map fqName (all_descs (c_m (NewCollector opt)))
      = map (\<lambda>s. Prefix opt @ s) spec_suffixes"
    by (simp add: all_descs_def NewCollector_def NewDesc_def spec_suffixes_def)
  have "distinct (map (\<lambda>s. Prefix opt @ s) spec_suffixes)"
    using distinct_suffixes by (simp add: distinct_map inj_on_def)
  with names have d: "distinct (map fqName (all_descs (c_m (NewCollector opt))))"
    by simp
  have labels: "map variableLabels (all_descs (c_m (NewCollector opt)))
      = replicate 8 (Labels opt)"
    by (simp add: all_descs_def NewCollector_def NewDesc_def numeral_eq_Suc)
  have single: "s_m (NewCollector_single sopt db) = c_m (NewCollector (Options.truncate sopt))"
    by (simp add: NewCollector_single_def NewCollector_def Options.truncate_def)
  have names1: "map fqName (all_descs (s_m (NewCollector_single sopt db)))
      = map (\<lambda>s. Prefix sopt @ s) spec_suffixes"
    by (simp add: all_descs_def NewCollector_single_def NewDesc_def spec_suffixes_def)
  have labels1: "map variableLabels (all_descs (s_m (NewCollector_single sopt db)))
      = replicate 8 (Labels sopt)"
    by (simp add: all_descs_def NewCollector_single_def NewDesc_def numeral_eq_Suc)
  have len: "length (all_descs (c_m (NewCollector opt))) = 8"
    by (simp add: all_descs_def)
  have fields: "c_o (NewCollector opt) = opt" "c_dbs (NewCollector opt) = Map.empty"
    "c_l (NewCollector opt) = newRWMutex" "s_o (NewCollector_single sopt db) = sopt"
    "s_db (NewCollector_single sopt db) = db"
    by (simp_all add: NewCollector_def NewCollector_single_def)
  from len names d labels fields(1-3) single names1 labels1 fields(4,5) show ?thesis
    by (intro conjI)
qed

theorem NewCollector_descriptors_witness:
  "map fqName (all_descs (c_m (NewCollector example_opts)))
     = [''db_connections_max'', ''db_connections_open'', ''db_connections_in_use'',
        ''db_connections_idle'', ''db_connections_wait_count_total'',
        ''db_connections_wait_duration_seconds_total'',
        ''db_connections_max_idle_closed_total'',
        ''db_connections_max_lifetime_closed_total'']"
  using NewCollector_descriptors [of example_opts]
  by (simp add: spec_suffixes_def example_opts_def)

subsection \<open>Registration\<close>

lemma Lock_Unlock: "Lock mu = Some mu' \<Longrightarrow> Unlock mu' = mu"
  by (auto simp: Lock_def Unlock_def split: if_splits)

lemma Lock_new: "Lock newRWMutex = Some \<lparr>writer = True, readers = 0\<rparr>"
  by (simp add: Lock_def newRWMutex_def)

lemma MustRegisterDB_fresh:
  assumes "Lock (c_l c) \<noteq> None" and "c_dbs c db = None"
  shows "MustRegisterDB c db lvs = (c\<lparr>c_dbs := (c_dbs c)(db \<mapsto> lvs)\<rparr>, Returned)"
proof -
  from assms(1) obtain mu where mu: "Lock (c_l c) = Some mu" by auto
  then have "Unlock mu = c_l c" by (rule Lock_Unlock)
  with mu assms(2) show ?thesis
    by (simp add: MustRegisterDB_def)
qed

text \<open>
  A registration call leaves the mutex as it found it and never touches the options or
  the descriptors: every collector built by \<^verbatim>\<open>NewCollector\<close> and calls of
  \<^verbatim>\<open>MustRegisterDB\<close> that have ended has a free mutex and the descriptors of its
  options.
\<close>

lemma MustRegisterDB_lock: "c_l (fst (MustRegisterDB c db lvs)) = c_l c"
  by (auto simp: MustRegisterDB_def Let_def Lock_Unlock split: option.splits)

lemma MustRegisterDB_descs:
  "c_m (fst (MustRegisterDB c db lvs)) = c_m c \<and> c_o (fst (MustRegisterDB c db lvs)) = c_o c"
  by (auto simp: MustRegisterDB_def Let_def split: option.splits)

lemma example_collector_eq:
  "example_collector = (NewCollector example_opts)\<lparr>c_dbs := [DB 0 \<mapsto> [''orders'']]\<rparr>"
  unfolding example_collector_def
  by (subst MustRegisterDB_fresh) (simp_all add: NewCollector_def Lock_new)

lemma example_collector_lock: "c_l example_collector = newRWMutex"
  by (simp add: example_collector_eq NewCollector_def)

lemma example_collector_dbs: "c_dbs example_collector = [DB 0 \<mapsto> [''orders'']]"
  by (simp add: example_collector_eq)

text \<open>
  C3. In a collector whose mutex is free, a registration call for a handle that is
  already registered panics with \<^verbatim>\<open>duplicate register\<close>, and leaves the collector as it
  was: the registry still maps the handle to the label values of the first registration,
  no entry is added, removed or changed, and the mutex is released again.
\<close>

theorem MustRegisterDB_duplicate:
  assumes "Lock (c_l c) \<noteq> None" and "c_dbs c p = Some lvs"
  shows "MustRegisterDB c p lvs' = (c, Panicked DuplicateRegister)
    \<and> c_dbs (fst (MustRegisterDB c p lvs')) = c_dbs c
    \<and> c_dbs (fst (MustRegisterDB c p lvs')) p = Some lvs"
proof -
  from assms(1) obtain mu where mu: "Lock (c_l c) = Some mu" by auto
  then have "Unlock mu = c_l c" by (rule Lock_Unlock)
  with mu assms(2) have "MustRegisterDB c p lvs' = (c, Panicked DuplicateRegister)"
    by (simp add: MustRegisterDB_def)
  with assms(2) show ?thesis by simp
qed

theorem MustRegisterDB_duplicate_witness:
  "Lock (c_l example_collector) \<noteq> None
   \<and> c_dbs example_collector (DB 0) = Some [''orders'']
   \<and> MustRegisterDB example_collector (DB 0) [''billing'']
       = (example_collector, Panicked DuplicateRegister)
   \<and> c_dbs (fst (MustRegisterDB example_collector (DB 0) [''billing''])) (DB 0)
       = Some [''orders'']"
proof -
  have h1: "Lock (c_l example_collector) \<noteq> None"
    by (simp add: example_collector_lock Lock_new)
  have h2: "c_dbs example_collector (DB 0) = Some [''orders'']"
    by (simp add: example_collector_dbs)
  show ?thesis
    using h1 h2 MustRegisterDB_duplicate [OF h1 h2, of "[''billing'']"] by simp
qed

subsection \<open>Conversion to \<^verbatim>\<open>float64\<close>\<close>

lemma round_half_even_of_int: "round_half_even (of_int n) = n"
  by (simp add: round_half_even_def)

lemma ilog2_of_int:
  assumes "0 < k"
  shows "ilog2 (of_int k) = bitlen k - 1"
proof -
  from assms have b: "1 \<le> bitlen k"
    by (simp add: bitlen_alt_def)
  from bitlen_bounds [OF assms] have "(2::int) ^ nat (bitlen k - 1) \<le> k" by simp
  then have "(of_int ((2::int) ^ nat (bitlen k - 1)) :: rat) \<le> of_int k"
    by (simp only: of_int_le_iff)
  then have "pow2 (bitlen k - 1) \<le> of_int k"
    using b by (simp add: pow2_def)
  moreover have "bitlen 1 = 1"
    by (simp add: bitlen_alt_def)
  ultimately show ?thesis
    by (simp add: ilog2_def)
qed

lemma f64_round_of_int_pos:
  assumes "0 < k" and "k < 2 ^ 53"
  shows "f64_round (of_int k) = of_int k"
proof -
  from assms(1) have b1: "1 \<le> bitlen k"
    by (simp add: bitlen_alt_def)
  from assms have b2: "bitlen k \<le> 53"
    by (simp add: bitlen_le_iff_power)
  define m where "m = nat (53 - bitlen k)"
  have e: "ilog2 \<bar>of_int k\<bar> - 52 = - int m"
    using assms(1) b2 by (simp add: ilog2_of_int m_def)
  have u: "pow2 (- int m) = 1 / 2 ^ m"
    by (cases "m = 0") (simp_all add: pow2_def)
  have "\<bar>of_int k :: rat\<bar> / (1 / 2 ^ m) = of_int (k * 2 ^ m)"
    using assms(1) by simp
  then have r: "round_half_even (\<bar>of_int k :: rat\<bar> / (1 / 2 ^ m)) = k * 2 ^ m"
    by (simp only: round_half_even_of_int)
  have "f64_round (of_int k) = sgn (of_int k :: rat) * of_int (k * 2 ^ m) * (1 / 2 ^ m)"
    using assms(1) unfolding f64_round_def Let_def e u r by simp
  also have "\<dots> = of_int k"
    using assms(1) by simp
  finally show ?thesis .
qed

lemma f64_round_minus: "f64_round (- q) = - f64_round q"
  by (simp add: f64_round_def Let_def)

lemma float64_of_int_exact:
  assumes "\<bar>x\<bar> < 2 ^ 53"
  shows "float64_of_int x = of_int x"
proof -
  consider "x = 0" | "0 < x" | "x < 0" by linarith
  then show ?thesis
  proof cases
    case 1
    then show ?thesis by (simp add: float64_of_int_def f64_round_def)
  next
    case 2
    with assms show ?thesis
      by (simp add: float64_of_int_def f64_round_of_int_pos)
  next
    case 3
    with assms have "f64_round (of_int (- x)) = of_int (- x)"
      by (intro f64_round_of_int_pos) simp_all
    then show ?thesis
      by (simp add: float64_of_int_def f64_round_minus)
  qed
qed

lemma float64_of_int_inexact: "float64_of_int (2 ^ 53 + 1) = 2 ^ 53"
  by code_simp

lemma Seconds_example: "Seconds 1500000000 = 3 / 2"
  by code_simp

subsection \<open>The eight statements and the loop\<close>

lemma validateLabelValues_None:
  "validateLabelValues lvs n = None \<longleftrightarrow> length lvs = n \<and> list_all ValidString lvs"
  by (auto simp: validateLabelValues_def find_None_iff find_Some_iff list_all_iff split: option.splits)

lemma accepts_iff:
  "accepts d lvs \<longleftrightarrow> err d = None \<and> length lvs = length (variableLabels d) \<and> list_all ValidString lvs"
  by (auto simp: accepts_def validateLabelValues_None)

lemma MustNewConstMetric_accepts:
  "accepts d lvs \<Longrightarrow> MustNewConstMetric d vt v lvs = Inr \<lparr>desc = d, valType = vt, val = v, labelValues = lvs\<rparr>"
  by (simp add: accepts_def MustNewConstMetric_def)

lemma MustNewConstMetric_rejects:
  "\<not> accepts d lvs \<Longrightarrow> \<exists>p. MustNewConstMetric d vt v lvs = Inl p"
  by (auto simp: accepts_def MustNewConstMetric_def split: option.splits)

lemma send_accepts:
  "accepts d lvs \<Longrightarrow> send (MustNewConstMetric d vt v lvs) k ch
     = k (ch @ [\<lparr>desc = d, valType = vt, val = v, labelValues = lvs\<rparr>])"
  by (simp add: send_def MustNewConstMetric_accepts)

lemma send_rejects:
  "\<not> accepts d lvs \<Longrightarrow> \<exists>p. send (MustNewConstMetric d vt v lvs) k ch = (ch, Panicked p)"
  using MustNewConstMetric_rejects [of d lvs vt v] by (auto simp: send_def)

lemma send_samples_ok:
  assumes "sample_ok ms lvs"
  shows "send_samples ms S lvs ch = (ch @ spec_samples ms S lvs, Returned)"
  using assms
  by (simp add: sample_ok_def all_descs_def send_samples_def send_accepts spec_samples_def)

lemma send_samples_bad:
  assumes "\<not> sample_ok ms lvs"
  shows "\<exists>p. send_samples ms S lvs ch
     = (ch @ take (length (takeWhile (\<lambda>d. accepts d lvs) (all_descs ms))) (spec_samples ms S lvs),
        Panicked p)"
proof -
  note defs = send_samples_def all_descs_def spec_samples_def
  consider
      (1) "\<not> accepts (maxConnsDesc ms) lvs"
    | (2) "accepts (maxConnsDesc ms) lvs" "\<not> accepts (openConns ms) lvs"
    | (3) "accepts (maxConnsDesc ms) lvs" "accepts (openConns ms) lvs" "\<not> accepts (inUse ms) lvs"
    | (4) "accepts (maxConnsDesc ms) lvs" "accepts (openConns ms) lvs" "accepts (inUse ms) lvs"
          "\<not> accepts (idle ms) lvs"
    | (5) "accepts (maxConnsDesc ms) lvs" "accepts (openConns ms) lvs" "accepts (inUse ms) lvs"
          "accepts (idle ms) lvs" "\<not> accepts (waitCount ms) lvs"
    | (6) "accepts (maxConnsDesc ms) lvs" "accepts (openConns ms) lvs" "accepts (inUse ms) lvs"
          "accepts (idle ms) lvs" "accepts (waitCount ms) lvs" "\<not> accepts (waitDuration ms) lvs"
    | (7) "accepts (maxConnsDesc ms) lvs" "accepts (openConns ms) lvs" "accepts (inUse ms) lvs"
          "accepts (idle ms) lvs" "accepts (waitCount ms) lvs" "accepts (waitDuration ms) lvs"
          "\<not> accepts (maxIdleClosed ms) lvs"
    | (8) "accepts (maxConnsDesc ms) lvs" "accepts (openConns ms) lvs" "accepts (inUse ms) lvs"
          "accepts (idle ms) lvs" "accepts (waitCount ms) lvs" "accepts (waitDuration ms) lvs"
          "accepts (maxIdleClosed ms) lvs" "\<not> accepts (maxLifetimeClosed ms) lvs"
    using assms unfolding sample_ok_def all_descs_def by auto
  then show ?thesis
  proof cases
    case 1
    then show ?thesis
      using send_rejects [OF 1] by (simp add: defs)
  next
    case 2
    then show ?thesis
      using send_rejects [OF 2(2)] by (simp add: defs send_accepts)
  next
    case 3
    then show ?thesis
      using send_rejects [OF 3(3)] by (simp add: defs send_accepts)
  next
    case 4
    then show ?thesis
      using send_rejects [OF 4(4)] by (simp add: defs send_accepts)
  next
    case 5
    then show ?thesis
      using send_rejects [OF 5(5)] by (simp add: defs send_accepts)
  next
    case 6
    then show ?thesis
      using send_rejects [OF 6(6)] by (simp add: defs send_accepts)
  next
    case 7
    then show ?thesis
      using send_rejects [OF 7(7)] by (simp add: defs send_accepts)
  next
    case 8
    then show ?thesis
      using send_rejects [OF 8(8)] by (simp add: defs send_accepts)
  qed
qed



lemma send_samples_cases:
  obtains (ok) "sample_ok ms lvs" "send_samples ms S lvs ch = (ch @ spec_samples ms S lvs, Returned)"
  | (bad) n p where "\<not> sample_ok ms lvs"
      "send_samples ms S lvs ch = (ch @ take n (spec_samples ms S lvs), Panicked p)"
  using send_samples_ok [of ms lvs S ch] send_samples_bad [of ms lvs S ch] by blast

lemma Stats_DB:
  "Stats (DB a) w = Inr (snaps w a (reads w a), w\<lparr>reads := (reads w)(a := Suc (reads w a))\<rparr>)"
  by (simp add: Stats_def)

lemma Stats_Nil: "Stats NilDB w = Inl NilDereference"
  by (simp add: Stats_def)

lemma pool_samples_bump:
  assumes "fst e \<noteq> DB a"
  shows "pool_samples ms (w\<lparr>reads := (reads w)(a := k)\<rparr>) e = pool_samples ms w e"
  using assms by (cases "fst e") (auto simp: pool_samples_def)

lemma pool_samples_DB:
  "pool_samples ms w (DB a, lvs) = spec_samples ms (snaps w a (reads w a)) lvs"
  by (simp add: pool_samples_def)

lemma after_pass_Nil: "after_pass w [] = w"
  by (simp add: after_pass_def)

lemma after_pass_Cons:
  assumes "DB a \<notin> fst ` set es"
  shows "after_pass (w\<lparr>reads := (reads w)(a := Suc (reads w a))\<rparr>) es = after_pass w ((DB a, lvs) # es)"
  using assms by (auto simp: after_pass_def fun_eq_iff)

lemma range_dbs_ok:
  assumes "distinct (map fst es)" and "registry_ok ms es"
  shows "range_dbs ms es w ch
     = (ch @ concat (map (pool_samples ms w) es), Returned, after_pass w es)"
  using assms
proof (induction es arbitrary: w ch)
  case Nil
  then show ?case by (simp add: after_pass_Nil)
next
  case (Cons e es)
  obtain db lvs where e: "e = (db, lvs)" by (cases e)
  from Cons.prems e obtain a where db: "db = DB a" and ok: "sample_ok ms lvs"
    by (cases db) (auto simp: registry_ok_def)
  from Cons.prems e db have fresh: "DB a \<notin> fst ` set es" and d: "distinct (map fst es)"
    and rest: "registry_ok ms es"
    by (auto simp: registry_ok_def)
  let ?w1 = "w\<lparr>reads := (reads w)(a := Suc (reads w a))\<rparr>"
  let ?ch1 = "ch @ spec_samples ms (snaps w a (reads w a)) lvs"
  have same: "map (pool_samples ms ?w1) es = map (pool_samples ms w) es"
    using fresh by (intro map_cong refl pool_samples_bump) force
  have "range_dbs ms (e # es) w ch = range_dbs ms es ?w1 ?ch1"
    by (simp add: e db Stats_DB send_samples_ok [OF ok])
  also have "\<dots> = (?ch1 @ concat (map (pool_samples ms ?w1) es), Returned, after_pass ?w1 es)"
    by (rule Cons.IH [OF d rest])
  finally show ?case
    by (simp add: same e db pool_samples_DB after_pass_Cons [OF fresh])
qed


lemma range_dbs_reads:
  assumes "distinct (map fst es)" and "range_dbs ms es w ch = (ch', r, w')"
  shows "snaps w' = snaps w
    \<and> (\<forall>a. reads w' a = reads w a \<or> (reads w' a = Suc (reads w a) \<and> DB a \<in> fst ` set es))"
  using assms
proof (induction es arbitrary: w ch)
  case Nil
  then show ?case by simp
next
  case (Cons e es)
  obtain db lvs where e: "e = (db, lvs)" by (cases e)
  show ?case
  proof (cases db)
    case NilDB
    with Cons.prems e show ?thesis by (simp add: Stats_Nil)
  next
    case (DB a)
    let ?w1 = "w\<lparr>reads := (reads w)(a := Suc (reads w a))\<rparr>"
    from Cons.prems e DB have fresh: "DB a \<notin> fst ` set es" and d: "distinct (map fst es)"
      by auto
    show ?thesis
    proof (cases rule: send_samples_cases [of ms lvs "snaps w a (reads w a)" ch])
      case ok
      with Cons.prems e DB
      have "range_dbs ms es ?w1 (ch @ spec_samples ms (snaps w a (reads w a)) lvs) = (ch', r, w')"
        by (simp add: Stats_DB)
      from Cons.IH [OF d this] fresh e DB show ?thesis
        by (auto split: if_splits)
    next
      case (bad n p)
      with Cons.prems e DB have "w' = ?w1"
        by (auto simp: Stats_DB)
      with e DB show ?thesis by auto
    qed
  qed
qed

lemma range_dbs_prefix:
  assumes "distinct (map fst es)" and "range_dbs ms es w ch = (ch', r, w')"
  shows "\<exists>rest. ch' = ch @ rest \<and> prefix rest (concat (map (pool_samples ms w) es))"
  using assms
proof (induction es arbitrary: w ch)
  case Nil
  then show ?case by simp
next
  case (Cons e es)
  obtain db lvs where e: "e = (db, lvs)" by (cases e)
  show ?case
  proof (cases db)
    case NilDB
    with Cons.prems e show ?thesis by (simp add: Stats_Nil)
  next
    case (DB a)
    let ?w1 = "w\<lparr>reads := (reads w)(a := Suc (reads w a))\<rparr>"
    let ?S = "snaps w a (reads w a)"
    from Cons.prems e DB have fresh: "DB a \<notin> fst ` set es" and d: "distinct (map fst es)"
      by auto
    have same: "map (pool_samples ms ?w1) es = map (pool_samples ms w) es"
      using fresh by (intro map_cong refl pool_samples_bump) force
    show ?thesis
    proof (cases rule: send_samples_cases [of ms lvs ?S ch])
      case ok
      with Cons.prems e DB
      have "range_dbs ms es ?w1 (ch @ spec_samples ms ?S lvs) = (ch', r, w')"
        by (simp add: Stats_DB)
      from Cons.IH [OF d this] obtain rest where
        r1: "ch' = (ch @ spec_samples ms ?S lvs) @ rest" and
        r2: "prefix rest (concat (map (pool_samples ms ?w1) es))"
        by blast
      from r2 have "prefix rest (concat (map (pool_samples ms w) es))"
        by (simp only: same)
      with r1 e DB show ?thesis
        by (simp add: pool_samples_DB)
    next
      case (bad n p)
      with Cons.prems e DB have "ch' = ch @ take n (spec_samples ms ?S lvs)"
        by (auto simp: Stats_DB)
      moreover have "prefix (take n (spec_samples ms ?S lvs))
          (spec_samples ms ?S lvs @ concat (map (pool_samples ms w) es))"
        by (simp add: take_is_prefix prefix_prefix)
      ultimately show ?thesis using e DB
        by (simp add: pool_samples_DB)
    qed
  qed
qed

lemma Collect_unlocked:
  "RLock (c_l c) \<noteq> None \<Longrightarrow> Collect_multi c es w = range_dbs (c_m c) es w []"
  by (auto simp: Collect_multi_def)

lemma Collect_single_range:
  "Collect_single sc w = range_dbs (s_m sc) [(s_db sc, LabelValues (s_o sc))] w []"
  by (cases "s_db sc")
     (auto simp: Collect_single_def Stats_def split: prod.splits outcome.splits)

lemma range_order_distinct: "range_order m es \<Longrightarrow> distinct (map fst es)"
  by (simp add: range_order_def)

lemma range_order_lookup: "range_order m es \<Longrightarrow> (k, v) \<in> set es \<longleftrightarrow> m k = Some v"
  by (auto simp: range_order_def)

lemma range_order_keys: "range_order m es \<Longrightarrow> fst ` set es = dom m"
  unfolding range_order_def using dom_map_of_conv_image_fst [of es] by auto

lemma reads_after_pass:
  "reads (after_pass w es) a = (if DB a \<in> fst ` set es then Suc (reads w a) else reads w a)"
  by (simp add: after_pass_def)


lemma spec_samples_length: "length (spec_samples ms S lvs) = 8"
  by (simp add: spec_samples_def)

lemma spec_samples_desc: "map desc (spec_samples ms S lvs) = all_descs ms"
  by (simp add: spec_samples_def all_descs_def)

lemma spec_samples_labels: "map labelValues (spec_samples ms S lvs) = replicate 8 lvs"
  by (simp add: spec_samples_def numeral_eq_Suc)

lemma spec_samples_valType:
  "map valType (spec_samples ms S lvs) = [GaugeValue, GaugeValue, GaugeValue, GaugeValue,
     CounterValue, CounterValue, CounterValue, CounterValue]"
  by (simp add: spec_samples_def)

lemma spec_samples_val:
  "map val (spec_samples ms S lvs) = [float64_of_int (MaxOpenConnections S),
     float64_of_int (OpenConnections S), float64_of_int (InUse S), float64_of_int (Idle S),
     float64_of_int (WaitCount S), Seconds (WaitDuration S),
     float64_of_int (MaxIdleClosed S), float64_of_int (MaxLifetimeClosed S)]"
  by (simp add: spec_samples_def)


subsection \<open>A collection pass\<close>

lemma Collect_multi_ok:
  assumes "RLock (c_l c) \<noteq> None" and "range_order (c_dbs c) es" and "registry_ok (c_m c) es"
  shows "Collect_multi c es w
     = (concat (map (pool_samples (c_m c) w) es), Returned, after_pass w es)"
  using range_dbs_ok [OF range_order_distinct [OF assms(2)] assms(3), of w "[]"]
  by (simp add: Collect_unlocked [OF assms(1)])

lemma Collect_single_ok:
  assumes "registry_ok (s_m sc) [(s_db sc, LabelValues (s_o sc))]"
  shows "Collect_single sc w
     = (pool_samples (s_m sc) w (s_db sc, LabelValues (s_o sc)), Returned,
        after_pass w [(s_db sc, LabelValues (s_o sc))])"
  using range_dbs_ok [OF _ assms, of w "[]"]
  by (simp add: Collect_single_range)

lemma bad_collector_eq:
  "bad_collector = (NewCollector example_opts)\<lparr>c_dbs := [DB 0 \<mapsto> []]\<rparr>"
  unfolding bad_collector_def
  by (subst MustRegisterDB_fresh) (simp_all add: NewCollector_def Lock_new)

lemma two_pool_collector_eq:
  "two_pool_collector
     = (NewCollector example_opts)\<lparr>c_dbs := [DB 0 \<mapsto> [], DB 1 \<mapsto> [''orders'']]\<rparr>"
  unfolding two_pool_collector_def
  by (subst MustRegisterDB_fresh) (simp_all add: bad_collector_eq NewCollector_def Lock_new)

lemma example_metrics_ok: "sample_ok (c_m (NewCollector example_opts)) [''orders'']"
  by code_simp

lemma example_metrics_bad:
  "send_samples (c_m (NewCollector example_opts)) S [] ch
     = (ch, Panicked (InconsistentCardinality 1 0))"
  by (simp add: send_samples_def send_def MustNewConstMetric_def NewCollector_def NewDesc_def
      example_opts_def validateLabelValues_def IsValidMetricName_def isLetter_def isDigit_def
      checkLabelName_def LabelName_IsValid_def)

lemma example_single_metrics: "s_m example_single = c_m (NewCollector example_opts)"
  by (simp add: example_single_def NewCollector_single_def NewCollector_def example_opts_def)

lemma example_registry_ok: "registry_ok (c_m example_collector) [(DB 0, [''orders''])]"
  by (simp add: registry_ok_def example_collector_eq example_metrics_ok)

lemma example_single_ok:
  "registry_ok (s_m example_single) [(s_db example_single, LabelValues (s_o example_single))]"
  using example_metrics_ok
  by (simp add: registry_ok_def example_single_metrics)
     (simp add: example_single_def NewCollector_single_def)

lemma example_RLock: "RLock (c_l example_collector) \<noteq> None"
  by (simp add: example_collector_lock RLock_def newRWMutex_def)

lemma example_range_order: "range_order (c_dbs example_collector) [(DB 0, [''orders''])]"
  by (simp add: range_order_def example_collector_dbs)

lemma example_stats_val:
  "map val (spec_samples ms example_stats lvs) = [10, 3, 1, 2, 5, 3 / 2, 0, 2]"
  by (simp add: spec_samples_val example_stats_def float64_of_int_exact Seconds_example)

text \<open>
  C1, as amended. When every registration is well formed (the handle is not \<^verbatim>\<open>nil\<close> and
  all eight descriptors accept its label values), a pass of either collector returns
  normally and has sent, for every registered pool, exactly eight samples computed from
  the snapshot read from that pool in this pass: the eight descriptors in their order,
  the first four as gauges and the last four as counters, each value the conversion to
  \<^verbatim>\<open>float64\<close> of the corresponding field, the wait duration converted to seconds. The
  conversion of an integer of absolute value below \<open>2\<^sup>5\<^sup>3\<close> is exact.
\<close>

theorem Collect_emits_eight:
  assumes "RLock (c_l c) \<noteq> None" and "range_order (c_dbs c) es"
    and "registry_ok (c_m c) es"
    and "registry_ok (s_m sc) [(s_db sc, LabelValues (s_o sc))]"
  shows "Collect_multi c es w
       = (concat (map (pool_samples (c_m c) w) es), Returned, after_pass w es)
    \<and> Collect_single sc w
       = (pool_samples (s_m sc) w (s_db sc, LabelValues (s_o sc)), Returned,
          after_pass w [(s_db sc, LabelValues (s_o sc))])
    \<and> pool_samples ms w (DB a, lvs) = spec_samples ms (snaps w a (reads w a)) lvs
    \<and> length (spec_samples ms S lvs) = 8
    \<and> map desc (spec_samples ms S lvs) = all_descs ms
    \<and> map valType (spec_samples ms S lvs) = [GaugeValue, GaugeValue, GaugeValue, GaugeValue,
         CounterValue, CounterValue, CounterValue, CounterValue]
    \<and> map val (spec_samples ms S lvs) = [float64_of_int (MaxOpenConnections S),
         float64_of_int (OpenConnections S), float64_of_int (InUse S), float64_of_int (Idle S),
         float64_of_int (WaitCount S), Seconds (WaitDuration S),
         float64_of_int (MaxIdleClosed S), float64_of_int (MaxLifetimeClosed S)]
    \<and> (\<forall>x. \<bar>x\<bar> < 2 ^ 53 \<longrightarrow> float64_of_int x = of_int x)"
  using Collect_multi_ok [OF assms(1-3)] Collect_single_ok [OF assms(4)] float64_of_int_exact
  by (simp add: pool_samples_DB spec_samples_length spec_samples_desc spec_samples_valType
      spec_samples_val)

theorem Collect_emits_eight_witness:
  "RLock (c_l example_collector) \<noteq> None
   \<and> range_order (c_dbs example_collector) [(DB 0, [''orders''])]
   \<and> registry_ok (c_m example_collector) [(DB 0, [''orders''])]
   \<and> registry_ok (s_m example_single) [(s_db example_single, LabelValues (s_o example_single))]
   \<and> Collect_multi example_collector [(DB 0, [''orders''])] example_world
       = (spec_samples (c_m example_collector) example_stats [''orders''], Returned,
          after_pass example_world [(DB 0, [''orders''])])
   \<and> Collect_single example_single example_world
       = (spec_samples (s_m example_single) example_stats [''orders''], Returned,
          after_pass example_world [(DB 0, [''orders''])])
   \<and> map val (spec_samples (c_m example_collector) example_stats [''orders''])
       = [10, 3, 1, 2, 5, 3 / 2, 0, 2]"
proof -
  have S: "snaps example_world 0 (reads example_world 0) = example_stats"
    by (simp add: example_world_def example_stats_def)
  have single: "s_db example_single = DB 0" "LabelValues (s_o example_single) = [''orders'']"
    by (simp_all add: example_single_def NewCollector_single_def)
  show ?thesis
    using Collect_emits_eight [OF example_RLock example_range_order example_registry_ok
        example_single_ok, where w = example_world and ms = "c_m example_collector"
        and a = 0 and lvs = "[''orders'']" and S = example_stats]
      example_RLock example_range_order example_registry_ok example_single_ok
    by (simp add: S single example_stats_val pool_samples_DB)
qed

text \<open>
  Without the condition on the registrations the property fails: for a registration that
  the constructor of the first sample rejects, the pool is registered and the pass sends
  no sample for it.
\<close>

theorem Collect_bad_registration_counterexample:
  "c_dbs bad_collector (DB 0) = Some []
   \<and> range_order (c_dbs bad_collector) [(DB 0, [])]
   \<and> RLock (c_l bad_collector) \<noteq> None
   \<and> fst (Collect_multi bad_collector [(DB 0, [])] example_world) = []
   \<and> length (fst (Collect_multi bad_collector [(DB 0, [])] example_world)) \<noteq> 8"
  by (simp add: bad_collector_eq range_order_def Collect_multi_def RLock_def Stats_def
      example_metrics_bad) (simp add: NewCollector_def newRWMutex_def)









lemma registry_ok_iff:
  "registry_ok ms es \<longleftrightarrow>
     (\<forall>e\<in>set es. fst e \<noteq> NilDB
        \<and> (\<forall>d\<in>set (all_descs ms). err d = None \<and> length (snd e) = length (variableLabels d))
        \<and> list_all ValidString (snd e))"
  by (auto simp: registry_ok_def sample_ok_def list_all_iff accepts_iff all_descs_def)


lemma two_pool_RLock: "RLock (c_l two_pool_collector) \<noteq> None"
  by (simp add: two_pool_collector_eq NewCollector_def RLock_def newRWMutex_def)




lemma range_dbs_labels:
  assumes "range_dbs ms es w ch = (ch', r, w')"
  shows "\<exists>rest. ch' = ch @ rest
    \<and> prefix (map labelValues rest) (concat (map (\<lambda>e. replicate 8 (snd e)) es))"
  using assms
proof (induction es arbitrary: w ch)
  case Nil
  then show ?case by simp
next
  case (Cons e es)
  obtain db lvs where e: "e = (db, lvs)" by (cases e)
  show ?case
  proof (cases db)
    case NilDB
    with Cons.prems e show ?thesis by (simp add: Stats_Nil)
  next
    case (DB a)
    let ?w1 = "w\<lparr>reads := (reads w)(a := Suc (reads w a))\<rparr>"
    let ?S = "snaps w a (reads w a)"
    show ?thesis
    proof (cases rule: send_samples_cases [of ms lvs ?S ch])
      case ok
      with Cons.prems e DB
      have "range_dbs ms es ?w1 (ch @ spec_samples ms ?S lvs) = (ch', r, w')"
        by (simp add: Stats_DB)
      from Cons.IH [OF this] obtain rest where
        "ch' = (ch @ spec_samples ms ?S lvs) @ rest"
        "prefix (map labelValues rest) (concat (map (\<lambda>e. replicate 8 (snd e)) es))"
        by blast
      with e show ?thesis
        by (simp add: spec_samples_labels)
    next
      case (bad n p)
      with Cons.prems e DB have "ch' = ch @ take n (spec_samples ms ?S lvs)"
        by (auto simp: Stats_DB)
      moreover have "map labelValues (take n (spec_samples ms ?S lvs))
          = take n (replicate 8 lvs)"
        by (simp only: take_map [symmetric] spec_samples_labels)
      then have "prefix (map labelValues (take n (spec_samples ms ?S lvs)))
          (replicate 8 lvs @ concat (map (\<lambda>e. replicate 8 (snd e)) es))"
        by (simp only: take_is_prefix prefix_prefix)
      ultimately show ?thesis using e by simp
    qed
  qed
qed

lemma Collect_multi_labels:
  "prefix (map labelValues (fst (Collect_multi c es w)))
     (concat (map (\<lambda>e. replicate 8 (snd e)) es))"
proof (cases "RLock (c_l c)")
  case None
  then show ?thesis by (simp add: Collect_multi_def)
next
  case (Some mu)
  obtain out r w' where eq: "range_dbs (c_m c) es w [] = (out, r, w')"
    by (cases "range_dbs (c_m c) es w []") auto
  from range_dbs_labels [OF eq] Some eq show ?thesis
    by (simp add: Collect_multi_def)
qed

lemma Collect_single_labels:
  "prefix (map labelValues (fst (Collect_single sc w))) (replicate 8 (LabelValues (s_o sc)))"
proof -
  obtain out r w' where
    eq: "range_dbs (s_m sc) [(s_db sc, LabelValues (s_o sc))] w [] = (out, r, w')"
    by (cases "range_dbs (s_m sc) [(s_db sc, LabelValues (s_o sc))] w []") auto
  from range_dbs_labels [OF eq] eq show ?thesis
    by (simp add: Collect_single_range)
qed

lemma labels_concat_pool_samples:
  assumes "registry_ok ms es"
  shows "map labelValues (concat (map (pool_samples ms w) es))
     = concat (map (\<lambda>e. replicate 8 (snd e)) es)"
  using assms
proof (induction es)
  case Nil
  then show ?case by simp
next
  case (Cons e es)
  then obtain a where "fst e = DB a"
    by (cases "fst e") (auto simp: registry_ok_def)
  with Cons show ?case
    by (simp add: registry_ok_def pool_samples_def spec_samples_labels)
qed

text \<open>
  C5. In every pass, whatever the world and however the pass ends, the label values of
  the samples sent, in the order sent, are a prefix of the registered lists in iteration
  order, each repeated eight times: every sample sent for a pool carries exactly the list
  registered for that pool, element for element. When the registrations are well formed
  the pass returns and the samples carry exactly these lists, eight per pool. The
  single-pool collector sends its one list of label values the same way.
\<close>

theorem Collect_label_values:
  assumes "range_order (c_dbs c) es"
  shows "prefix (map labelValues (fst (Collect_multi c es w)))
       (concat (map (\<lambda>e. replicate 8 (snd e)) es))
    \<and> (\<forall>e\<in>set es. c_dbs c (fst e) = Some (snd e))
    \<and> (RLock (c_l c) \<noteq> None \<and> registry_ok (c_m c) es \<longrightarrow>
         fst (snd (Collect_multi c es w)) = Returned
         \<and> map labelValues (fst (Collect_multi c es w))
             = concat (map (\<lambda>e. replicate 8 (snd e)) es))
    \<and> prefix (map labelValues (fst (Collect_single sc w)))
         (replicate 8 (LabelValues (s_o sc)))
    \<and> (registry_ok (s_m sc) [(s_db sc, LabelValues (s_o sc))] \<longrightarrow>
         fst (snd (Collect_single sc w)) = Returned
         \<and> map labelValues (fst (Collect_single sc w)) = replicate 8 (LabelValues (s_o sc)))"
proof -
  have reg: "\<forall>e\<in>set es. c_dbs c (fst e) = Some (snd e)"
    using range_order_lookup [OF assms] by auto
  have multi: "fst (snd (Collect_multi c es w)) = Returned
      \<and> map labelValues (fst (Collect_multi c es w))
          = concat (map (\<lambda>e. replicate 8 (snd e)) es)"
    if "RLock (c_l c) \<noteq> None" "registry_ok (c_m c) es"
    using Collect_multi_ok [OF that(1) assms that(2), of w]
    by (simp add: labels_concat_pool_samples [OF that(2)])
  have single: "fst (snd (Collect_single sc w)) = Returned
      \<and> map labelValues (fst (Collect_single sc w)) = replicate 8 (LabelValues (s_o sc))"
    if "registry_ok (s_m sc) [(s_db sc, LabelValues (s_o sc))]"
    using Collect_single_ok [OF that, of w] labels_concat_pool_samples [OF that, of w]
    by simp
  show ?thesis
    using reg multi single Collect_multi_labels [of c es w] Collect_single_labels [of sc w]
    by blast
qed

theorem Collect_label_values_witness:
  "range_order (c_dbs example_collector) [(DB 0, [''orders''])]
   \<and> RLock (c_l example_collector) \<noteq> None
   \<and> registry_ok (c_m example_collector) [(DB 0, [''orders''])]
   \<and> registry_ok (s_m example_single) [(s_db example_single, LabelValues (s_o example_single))]
   \<and> c_dbs example_collector (DB 0) = Some [''orders'']
   \<and> map labelValues (fst (Collect_multi example_collector [(DB 0, [''orders''])] example_world))
       = replicate 8 [''orders'']
   \<and> map labelValues (fst (Collect_single example_single example_world))
       = replicate 8 [''orders'']"
proof -
  have single: "LabelValues (s_o example_single) = [''orders'']"
    by (simp add: example_single_def NewCollector_single_def)
  show ?thesis
    using Collect_label_values [OF example_range_order,
        where w = example_world and sc = example_single]
      example_RLock example_range_order example_registry_ok example_single_ok
    by (simp add: single)
qed

lemma Collect_multi_prefix:
  assumes "range_order (c_dbs c) es"
  shows "prefix (fst (Collect_multi c es w)) (concat (map (pool_samples (c_m c) w) es))"
proof (cases "RLock (c_l c)")
  case None
  then show ?thesis by (simp add: Collect_multi_def)
next
  case (Some mu)
  obtain out r w' where eq: "range_dbs (c_m c) es w [] = (out, r, w')"
    by (cases "range_dbs (c_m c) es w []") auto
  from range_dbs_prefix [OF range_order_distinct [OF assms] eq] Some eq show ?thesis
    by (simp add: Collect_multi_def)
qed

lemma Collect_single_prefix:
  "prefix (fst (Collect_single sc w))
     (pool_samples (s_m sc) w (s_db sc, LabelValues (s_o sc)))"
proof -
  obtain out r w' where
    eq: "range_dbs (s_m sc) [(s_db sc, LabelValues (s_o sc))] w [] = (out, r, w')"
    by (cases "range_dbs (s_m sc) [(s_db sc, LabelValues (s_o sc))] w []") auto
  from range_dbs_prefix [OF _ eq] eq show ?thesis
    by (simp add: Collect_single_range)
qed

lemma Collect_single_world:
  "s_db sc = DB b \<Longrightarrow>
     snd (snd (Collect_single sc w)) = w\<lparr>reads := (reads w)(b := Suc (reads w b))\<rparr>"
  by (simp add: Collect_single_def Stats_DB split: prod.splits)

lemma two_pool_range_order_rev:
  "range_order (c_dbs two_pool_collector) [(DB 0, []), (DB 1, [''orders''])]"
  by (auto simp: range_order_def two_pool_collector_eq)

text \<open>
  C6, as amended. In every pass \<^verbatim>\<open>Stats\<close> is called at most once on each pool, only on
  registered pools, and what is sent is a prefix of the samples computed from the one
  snapshot each call returned: no field is read from a pool a second time. When every
  registration is well formed the pass returns, \<^verbatim>\<open>Stats\<close> has been called exactly once
  on every registered pool, and all eight samples of each pool come from that snapshot.
  The single-pool collector calls \<^verbatim>\<open>Stats\<close> exactly once on its pool.
\<close>

theorem Collect_reads_once:
  assumes "RLock (c_l c) \<noteq> None" and "range_order (c_dbs c) es"
    and "Collect_multi c es w = (out, r, w')"
  shows "snaps w' = snaps w
    \<and> (\<forall>a. reads w' a = reads w a \<or> (reads w' a = Suc (reads w a) \<and> c_dbs c (DB a) \<noteq> None))
    \<and> prefix out (concat (map (pool_samples (c_m c) w) es))
    \<and> pool_samples ms w (DB b, lvs) = spec_samples ms (snaps w b (reads w b)) lvs
    \<and> (registry_ok (c_m c) es \<longrightarrow>
         r = Returned \<and> out = concat (map (pool_samples (c_m c) w) es)
         \<and> (\<forall>a. reads w' a = (if c_dbs c (DB a) \<noteq> None then Suc (reads w a) else reads w a)))
    \<and> (s_db sc = DB b \<longrightarrow>
         reads (snd (snd (Collect_single sc w))) b = Suc (reads w b)
         \<and> prefix (fst (Collect_single sc w))
             (spec_samples (s_m sc) (snaps w b (reads w b)) (LabelValues (s_o sc))))"
proof -
  from assms(1,3) have eq: "range_dbs (c_m c) es w [] = (out, r, w')"
    by (simp add: Collect_unlocked)
  have keys: "DB a \<in> fst ` set es \<longleftrightarrow> c_dbs c (DB a) \<noteq> None" for a
    using range_order_keys [OF assms(2)] by auto
  have 1: "snaps w' = snaps w"
    and 2: "\<forall>a. reads w' a = reads w a
      \<or> (reads w' a = Suc (reads w a) \<and> c_dbs c (DB a) \<noteq> None)"
    using range_dbs_reads [OF range_order_distinct [OF assms(2)] eq] by (simp_all add: keys)
  have 3: "prefix out (concat (map (pool_samples (c_m c) w) es))"
    using Collect_multi_prefix [OF assms(2), of w] assms(3) by simp
  have 4: "r = Returned \<and> out = concat (map (pool_samples (c_m c) w) es)
      \<and> (\<forall>a. reads w' a = (if c_dbs c (DB a) \<noteq> None then Suc (reads w a) else reads w a))"
    if "registry_ok (c_m c) es"
    using Collect_multi_ok [OF assms(1,2) that, of w] assms(3)
    by (auto simp: reads_after_pass keys)
  have 5: "reads (snd (snd (Collect_single sc w))) b = Suc (reads w b)
      \<and> prefix (fst (Collect_single sc w))
          (spec_samples (s_m sc) (snaps w b (reads w b)) (LabelValues (s_o sc)))"
    if "s_db sc = DB b"
    using Collect_single_prefix [of sc w] that
    by (simp add: Collect_single_world pool_samples_DB)
  show ?thesis
    using 1 2 3 4 5 by (simp add: pool_samples_DB)
qed

theorem Collect_reads_once_witness:
  "RLock (c_l example_collector) \<noteq> None
   \<and> range_order (c_dbs example_collector) [(DB 0, [''orders''])]
   \<and> registry_ok (c_m example_collector) [(DB 0, [''orders''])]
   \<and> s_db example_single = DB 0
   \<and> Collect_multi example_collector [(DB 0, [''orders''])] example_world
       = (spec_samples (c_m example_collector) example_stats [''orders''], Returned,
          after_pass example_world [(DB 0, [''orders''])])
   \<and> reads (after_pass example_world [(DB 0, [''orders''])]) 0 = Suc (reads example_world 0)
   \<and> reads (after_pass example_world [(DB 0, [''orders''])]) 1 = reads example_world 1
   \<and> reads (snd (snd (Collect_single example_single example_world))) 0
       = Suc (reads example_world 0)"
proof -
  have S: "snaps example_world 0 (reads example_world 0) = example_stats"
    by (simp add: example_world_def example_stats_def)
  have single: "s_db example_single = DB 0"
    by (simp add: example_single_def NewCollector_single_def)
  have pass: "Collect_multi example_collector [(DB 0, [''orders''])] example_world
      = (spec_samples (c_m example_collector) example_stats [''orders''], Returned,
         after_pass example_world [(DB 0, [''orders''])])"
    using Collect_multi_ok [OF example_RLock example_range_order example_registry_ok,
        of example_world]
    by (simp add: pool_samples_DB S)
  show ?thesis
    using Collect_reads_once [OF example_RLock example_range_order pass,
        where sc = example_single and b = 0]
      example_RLock example_range_order example_registry_ok single pass
    by (simp add: example_collector_dbs)
qed

text \<open>
  Exactly once per registered pool does not hold in every pass: when the pass panics at
  an earlier pool, \<^verbatim>\<open>Stats\<close> is never called on the registered pool at address 1.
\<close>

theorem Collect_skips_pool_counterexample:
  "range_order (c_dbs two_pool_collector) [(DB 0, []), (DB 1, [''orders''])]
   \<and> RLock (c_l two_pool_collector) \<noteq> None
   \<and> c_dbs two_pool_collector (DB 1) = Some [''orders'']
   \<and> reads (snd (snd (Collect_multi two_pool_collector [(DB 0, []), (DB 1, [''orders''])]
         example_world))) 1 = reads example_world 1"
proof -
  have m: "c_m two_pool_collector = c_m (NewCollector example_opts)"
    by (simp add: two_pool_collector_eq)
  have d: "c_dbs two_pool_collector (DB 1) = Some [''orders'']"
    by (simp add: two_pool_collector_eq)
  show ?thesis
    using two_pool_range_order_rev two_pool_RLock d
    by (simp add: Collect_unlocked m Stats_def example_metrics_bad)
qed







subsection \<open>Describe\<close>

lemma descs_pool_samples: "set (map desc (pool_samples ms w e)) \<subseteq> set (all_descs ms)"
  by (cases "fst e") (simp_all add: pool_samples_def spec_samples_desc)

lemma descs_concat_subset:
  "set (map desc (concat (map (pool_samples ms w) es))) \<subseteq> set (all_descs ms)"
  using descs_pool_samples [of ms w] by (induction es) auto

lemma descs_concat_ok:
  assumes "registry_ok ms es"
  shows "map desc (concat (map (pool_samples ms w) es))
     = concat (replicate (length es) (all_descs ms))"
  using assms
proof (induction es)
  case Nil
  then show ?case by simp
next
  case (Cons e es)
  then obtain a where "fst e = DB a"
    by (cases "fst e") (auto simp: registry_ok_def)
  with Cons show ?case
    by (simp add: registry_ok_def pool_samples_def spec_samples_desc)
qed

lemma prefix_set_subset: "prefix xs ys \<Longrightarrow> set (map f xs) \<subseteq> set (map f ys)"
  by (auto simp: prefix_def)

lemma Describe_eq: "fst (Describe c es w) = map desc (fst (Collect_multi c es w))"
  by (simp add: Describe_def DescribeByCollect_def split: prod.splits)

lemma Describe_single_eq: "fst (Describe_single sc w) = map desc (fst (Collect_single sc w))"
  by (simp add: Describe_single_def DescribeByCollect_def split: prod.splits)

text \<open>
  C7, as amended. \<^verbatim>\<open>Describe\<close> runs a pass and reports the descriptor of every sample
  the pass sends. It never reports a descriptor other than the collector's eight. With
  well-formed registrations it reports the eight descriptors once per registered pool, in
  their order: all eight when at least one pool is registered, none when the registry is
  empty. The single-pool collector, which always has its one pool, reports the eight
  descriptors once.
\<close>

theorem Describe_by_collect:
  assumes "range_order (c_dbs c) es"
  shows "fst (Describe c es w) = map desc (fst (Collect_multi c es w))
    \<and> set (fst (Describe c es w)) \<subseteq> set (all_descs (c_m c))
    \<and> (RLock (c_l c) \<noteq> None \<and> registry_ok (c_m c) es \<longrightarrow>
         Describe c es w
           = (concat (replicate (length es) (all_descs (c_m c))), Returned, after_pass w es))
    \<and> (RLock (c_l c) \<noteq> None \<and> registry_ok (c_m c) es \<and> es \<noteq> [] \<longrightarrow>
         set (fst (Describe c es w)) = set (all_descs (c_m c)))
    \<and> fst (Describe_single sc w) = map desc (fst (Collect_single sc w))
    \<and> set (fst (Describe_single sc w)) \<subseteq> set (all_descs (s_m sc))
    \<and> (registry_ok (s_m sc) [(s_db sc, LabelValues (s_o sc))] \<longrightarrow>
         Describe_single sc w
           = (all_descs (s_m sc), Returned, after_pass w [(s_db sc, LabelValues (s_o sc))]))"
proof -
  have sub: "set (fst (Describe c es w)) \<subseteq> set (all_descs (c_m c))"
    using prefix_set_subset [OF Collect_multi_prefix [OF assms, of w], of desc]
      descs_concat_subset [of "c_m c" w es]
    unfolding Describe_eq by (rule subset_trans)
  have full: "Describe c es w
      = (concat (replicate (length es) (all_descs (c_m c))), Returned, after_pass w es)"
    if "RLock (c_l c) \<noteq> None" "registry_ok (c_m c) es"
    using Collect_multi_ok [OF that(1) assms that(2), of w] descs_concat_ok [OF that(2), of w]
    by (simp add: Describe_def DescribeByCollect_def)
  have all8: "set (fst (Describe c es w)) = set (all_descs (c_m c))"
    if "RLock (c_l c) \<noteq> None" "registry_ok (c_m c) es" "es \<noteq> []"
    using full [OF that(1,2)] that(3) by (cases es) auto
  have sub1: "set (fst (Describe_single sc w)) \<subseteq> set (all_descs (s_m sc))"
    using prefix_set_subset [OF Collect_single_prefix [of sc w], of desc]
      descs_pool_samples [of "s_m sc" w "(s_db sc, LabelValues (s_o sc))"]
    unfolding Describe_single_eq by (rule subset_trans)
  have full1: "Describe_single sc w
      = (all_descs (s_m sc), Returned, after_pass w [(s_db sc, LabelValues (s_o sc))])"
    if "registry_ok (s_m sc) [(s_db sc, LabelValues (s_o sc))]"
    using Collect_single_ok [OF that, of w] descs_concat_ok [OF that, of w]
    by (simp add: Describe_single_def DescribeByCollect_def)
  show ?thesis
    using sub full all8 sub1 full1 Describe_eq [of c es w] Describe_single_eq [of sc w]
    by blast
qed

theorem Describe_by_collect_witness:
  "range_order (c_dbs example_collector) [(DB 0, [''orders''])]
   \<and> RLock (c_l example_collector) \<noteq> None
   \<and> registry_ok (c_m example_collector) [(DB 0, [''orders''])]
   \<and> registry_ok (s_m example_single) [(s_db example_single, LabelValues (s_o example_single))]
   \<and> fst (Describe example_collector [(DB 0, [''orders''])] example_world)
       = all_descs (c_m example_collector)
   \<and> fst (Describe_single example_single example_world) = all_descs (s_m example_single)"
  using Describe_by_collect [OF example_range_order,
      where w = example_world and sc = example_single]
    example_RLock example_range_order example_registry_ok example_single_ok
  by simp

text \<open>
  Not every collector state reports eight descriptors: a collector with no pool
  registered yet has eight descriptors, and \<^verbatim>\<open>Describe\<close> reports none of them.
\<close>

theorem Describe_empty_registry_counterexample:
  "range_order (c_dbs (NewCollector example_opts)) []
   \<and> RLock (c_l (NewCollector example_opts)) \<noteq> None
   \<and> length (all_descs (c_m (NewCollector example_opts))) = 8
   \<and> fst (Describe (NewCollector example_opts) [] example_world) = []
   \<and> fst (snd (Describe (NewCollector example_opts) [] example_world)) = Returned"
  by (simp add: range_order_def Describe_def DescribeByCollect_def Collect_multi_def
      all_descs_def) (simp add: NewCollector_def RLock_def newRWMutex_def)

subsection \<open>Registrations are not checked\<close>

lemma send_samples_cardinality:
  assumes "err (maxConnsDesc ms) = None"
    and "length lvs \<noteq> length (variableLabels (maxConnsDesc ms))"
  shows "send_samples ms S lvs ch
     = (ch, Panicked (InconsistentCardinality (length (variableLabels (maxConnsDesc ms)))
          (length lvs)))"
  using assms
  by (simp add: send_samples_def send_def MustNewConstMetric_def validateLabelValues_def)

lemma after_pass_single:
  "w\<lparr>reads := (reads w)(a := Suc (reads w a))\<rparr> = after_pass w [(DB a, lvs)]"
  using after_pass_Cons [of a "[]" w lvs] by (simp add: after_pass_Nil)

lemma range_dbs_stops:
  assumes "distinct (map fst (es1 @ (DB a, lvs) # es2))" and "registry_ok ms es1"
    and "\<And>S ch. send_samples ms S lvs ch = (ch, Panicked p)"
  shows "range_dbs ms (es1 @ (DB a, lvs) # es2) w ch
     = (ch @ concat (map (pool_samples ms w) es1), Panicked p,
        after_pass w (es1 @ [(DB a, lvs)]))"
  using assms(1,2)
proof (induction es1 arbitrary: w ch)
  case Nil
  show ?case
    by (simp add: Stats_DB assms(3) after_pass_single)
next
  case (Cons e es1)
  obtain db lvs' where e: "e = (db, lvs')" by (cases e)
  from Cons.prems e obtain a' where db: "db = DB a'" and ok: "sample_ok ms lvs'"
    by (cases db) (auto simp: registry_ok_def)
  from Cons.prems e db have fresh: "DB a' \<notin> fst ` set es1" "a' \<noteq> a"
    and d: "distinct (map fst (es1 @ (DB a, lvs) # es2))" and rest: "registry_ok ms es1"
    by (auto simp: registry_ok_def)
  let ?w1 = "w\<lparr>reads := (reads w)(a' := Suc (reads w a'))\<rparr>"
  let ?ch1 = "ch @ spec_samples ms (snaps w a' (reads w a')) lvs'"
  have same: "map (pool_samples ms ?w1) es1 = map (pool_samples ms w) es1"
    using fresh(1) by (intro map_cong refl pool_samples_bump) force
  have fresh': "DB a' \<notin> fst ` set (es1 @ [(DB a, lvs)])"
    using fresh by auto
  have "range_dbs ms ((e # es1) @ (DB a, lvs) # es2) w ch
      = range_dbs ms (es1 @ (DB a, lvs) # es2) ?w1 ?ch1"
    by (simp add: e db Stats_DB send_samples_ok [OF ok])
  also have "\<dots> = (?ch1 @ concat (map (pool_samples ms ?w1) es1), Panicked p,
      after_pass ?w1 (es1 @ [(DB a, lvs)]))"
    by (rule Cons.IH [OF d rest])
  finally show ?case
    by (simp add: same e db pool_samples_DB after_pass_Cons [OF fresh'])
qed

lemma Lock_RLock: "Lock mu \<noteq> None \<Longrightarrow> RLock mu \<noteq> None"
  by (auto simp: Lock_def RLock_def split: if_splits)

text \<open>
  C10. \<^verbatim>\<open>MustRegisterDB\<close> stores whatever list of label values it is given, and the
  single-pool constructor keeps whatever list its options hold: neither compares the
  list's length with the label names'. When the lengths differ (and the first descriptor
  is valid), registration still returns normally, and the mismatch surfaces in the next
  pass: the pass sends the samples of the well-formed pools iterated before the new pool,
  reads that pool's statistics, and panics with the cardinality error while building the
  pool's first sample, having sent no sample for that pool. The single-pool collector's
  pass panics the same way before sending anything.
\<close>

theorem registration_unchecked:
  assumes "Lock (c_l c) \<noteq> None" and "c_dbs c (DB a) = None"
    and "err (maxConnsDesc (c_m c)) = None"
    and "length lvs \<noteq> length (variableLabels (maxConnsDesc (c_m c)))"
    and "range_order ((c_dbs c)(DB a \<mapsto> lvs)) (es1 @ (DB a, lvs) # es2)"
    and "registry_ok (c_m c) es1"
    and "err (maxConnsDesc (s_m sc)) = None"
    and "length (LabelValues (s_o sc)) \<noteq> length (variableLabels (maxConnsDesc (s_m sc)))"
    and "s_db sc = DB b"
  shows "MustRegisterDB c (DB a) lvs = (c\<lparr>c_dbs := (c_dbs c)(DB a \<mapsto> lvs)\<rparr>, Returned)
    \<and> Collect_multi (fst (MustRegisterDB c (DB a) lvs)) (es1 @ (DB a, lvs) # es2) w
        = (concat (map (pool_samples (c_m c) w) es1),
           Panicked (InconsistentCardinality (length (variableLabels (maxConnsDesc (c_m c))))
             (length lvs)),
           after_pass w (es1 @ [(DB a, lvs)]))
    \<and> s_o (NewCollector_single sopt db) = sopt
    \<and> Collect_single sc w
        = ([], Panicked (InconsistentCardinality (length (variableLabels (maxConnsDesc (s_m sc))))
             (length (LabelValues (s_o sc)))),
           after_pass w [(DB b, LabelValues (s_o sc))])"
proof -
  let ?c' = "c\<lparr>c_dbs := (c_dbs c)(DB a \<mapsto> lvs)\<rparr>"
  have reg: "MustRegisterDB c (DB a) lvs = (?c', Returned)"
    by (rule MustRegisterDB_fresh [OF assms(1,2)])
  have lock: "RLock (c_l ?c') \<noteq> None"
    using Lock_RLock [OF assms(1)] by simp
  have d: "distinct (map fst (es1 @ (DB a, lvs) # es2))"
    using range_order_distinct [OF assms(5)] .
  have pass: "Collect_multi ?c' (es1 @ (DB a, lvs) # es2) w
      = (concat (map (pool_samples (c_m c) w) es1),
         Panicked (InconsistentCardinality (length (variableLabels (maxConnsDesc (c_m c))))
           (length lvs)),
         after_pass w (es1 @ [(DB a, lvs)]))"
    using range_dbs_stops [OF d assms(6) send_samples_cardinality [OF assms(3,4)], of w "[]"]
    by (simp add: Collect_unlocked [OF lock])
  have single: "Collect_single sc w
      = ([], Panicked (InconsistentCardinality (length (variableLabels (maxConnsDesc (s_m sc))))
           (length (LabelValues (s_o sc)))),
         after_pass w [(DB b, LabelValues (s_o sc))])"
    by (simp add: Collect_single_def assms(9) Stats_DB send_samples_cardinality [OF assms(7,8)]
        after_pass_single)
  show ?thesis
    using reg pass single by (simp add: NewCollector_single_def)
qed

lemma example_desc_err: "err (maxConnsDesc (c_m (NewCollector example_opts))) = None"
  by (simp add: NewCollector_def NewDesc_def example_opts_def IsValidMetricName_def
      isLetter_def isDigit_def checkLabelName_def LabelName_IsValid_def)

lemma example_desc_labels:
  "variableLabels (maxConnsDesc (c_m (NewCollector example_opts))) = [''service'']"
  by (simp add: NewCollector_def NewDesc_def example_opts_def)

lemma bad_single_fields:
  "s_m bad_single = c_m (NewCollector example_opts)" "s_db bad_single = DB 0"
  "LabelValues (s_o bad_single) = [''orders'', ''eu'']"
  by (simp_all add: bad_single_def NewCollector_single_def NewCollector_def example_opts_def)

theorem registration_unchecked_witness:
  "Lock (c_l example_collector) \<noteq> None
   \<and> c_dbs example_collector (DB 1) = None
   \<and> range_order ((c_dbs example_collector)(DB 1 \<mapsto> []))
        ([(DB 0, [''orders''])] @ (DB 1, []) # [])
   \<and> registry_ok (c_m example_collector) [(DB 0, [''orders''])]
   \<and> MustRegisterDB example_collector (DB 1) []
        = (example_collector\<lparr>c_dbs := (c_dbs example_collector)(DB 1 \<mapsto> [])\<rparr>, Returned)
   \<and> Collect_multi (fst (MustRegisterDB example_collector (DB 1) []))
        [(DB 0, [''orders'']), (DB 1, [])] example_world
        = (spec_samples (c_m example_collector) example_stats [''orders''],
           Panicked (InconsistentCardinality 1 0),
           after_pass example_world [(DB 0, [''orders'']), (DB 1, [])])
   \<and> Collect_single bad_single example_world
        = ([], Panicked (InconsistentCardinality 1 2),
           after_pass example_world [(DB 0, [''orders'', ''eu''])])"
proof -
  have S: "snaps example_world 0 (reads example_world 0) = example_stats"
    by (simp add: example_world_def example_stats_def)
  have m: "c_m example_collector = c_m (NewCollector example_opts)"
    by (simp add: example_collector_eq)
  have h1: "Lock (c_l example_collector) \<noteq> None"
    by (simp add: example_collector_lock Lock_new)
  have h2: "c_dbs example_collector (DB 1) = None"
    by (simp add: example_collector_dbs)
  have h3: "err (maxConnsDesc (c_m example_collector)) = None"
    by (simp add: m example_desc_err)
  have h4: "length ([] :: string list)
      \<noteq> length (variableLabels (maxConnsDesc (c_m example_collector)))"
    by (simp add: m example_desc_labels)
  have h5: "range_order ((c_dbs example_collector)(DB 1 \<mapsto> []))
      ([(DB 0, [''orders''])] @ (DB 1, []) # [])"
    by (auto simp: range_order_def example_collector_dbs)
  have h7: "err (maxConnsDesc (s_m bad_single)) = None"
    by (simp add: bad_single_fields example_desc_err)
  have h8: "length (LabelValues (s_o bad_single))
      \<noteq> length (variableLabels (maxConnsDesc (s_m bad_single)))"
    by (simp add: bad_single_fields example_desc_labels)
  show ?thesis
    using registration_unchecked [OF h1 h2 h3 h4 h5 example_registry_ok h7 h8
        bad_single_fields(2), where w = example_world and sopt = "s_o bad_single"
        and db = "DB 0"] h1 h2 h5 example_registry_ok
    by (auto simp: pool_samples_DB S m example_desc_labels bad_single_fields)
qed

subsection \<open>A pass concurrent with a registration\<close>

text \<open>
  C9. The property does not hold of the code. \<^verbatim>\<open>Collect\<close> read-locks the mutex of its
  receiver, which is a copy, so the collector's own mutex never learns of the reader:
  after the pass has entered its loop over the map, a registration still acquires the
  write lock and reaches the assignment to the same map. The pass iterates the map while
  the registration writes it.
\<close>

theorem Collect_races_with_registration:
  "cpc (run (DB 1) [''billing''] [Collecting, Collecting, Registering, Registering]
      (conc_init example_collector)) = C_range \<lparr>writer = False, readers = 1\<rparr>
   \<and> rpc (run (DB 1) [''billing''] [Collecting, Collecting, Registering, Registering]
      (conc_init example_collector)) = R_write
   \<and> shared_l (run (DB 1) [''billing''] [Collecting, Collecting, Registering, Registering]
      (conc_init example_collector)) = \<lparr>writer = True, readers = 0\<rparr>"
  by (simp add: conc_init_def step_collect_def step_register_def example_collector_lock
      example_collector_dbs newRWMutex_def RLock_def Lock_def)

text \<open>
  When the receiver is copied while a registration holds the write lock, the copy is a
  locked mutex that nobody releases: the registration finishes and frees the collector's
  mutex, and the pass still waits.
\<close>

lemma Collect_blocks_on_copied_lock:
  "shared_l (run (DB 1) [''billing'']
      [Registering, Collecting, Registering, Registering, Collecting, Collecting, Collecting]
      (conc_init example_collector)) = newRWMutex
   \<and> rpc (run (DB 1) [''billing'']
      [Registering, Collecting, Registering, Registering, Collecting, Collecting, Collecting]
      (conc_init example_collector)) = R_return
   \<and> cpc (run (DB 1) [''billing'']
      [Registering, Collecting, Registering, Registering, Collecting, Collecting, Collecting]
      (conc_init example_collector)) = C_RLock \<lparr>writer = True, readers = 0\<rparr>"
  by (simp add: conc_init_def step_collect_def step_register_def example_collector_lock
      example_collector_dbs newRWMutex_def RLock_def Lock_def Unlock_def)

text \<open>
  The mutex itself does exclude a writer while a reader holds it: had the pass
  read-locked the collector's own mutex, the registration would have waited.
\<close>

lemma RLock_excludes_Lock: "RLock mu = Some mu' \<Longrightarrow> Lock mu' = None"
  by (auto simp: RLock_def Lock_def split: if_splits)

lemma blocked_for_ever:
  "cpc s = C_RLock \<lparr>writer = True, readers = n\<rparr> \<Longrightarrow> step_collect s = s"
  by (simp add: step_collect_def RLock_def)

lemma Collect_multi_blocked: "writer (c_l c) \<Longrightarrow> Collect_multi c es w = ([], Blocked, w)"
  by (simp add: Collect_multi_def RLock_def)

end
